theory Spec2Isabelle
  imports Main "HOL-Library.Word" "HOL-Library.Signed_Division"
begin

section \<open>Machine integers and OpenCV value types\<close>

text \<open>
  The C++ types \<open>int\<close> and \<open>unsigned\<close> are both 32-bit words. A conversion between them
  keeps the bits, and mixed \<open>int\<close>/\<open>unsigned\<close> arithmetic is carried out on \<open>unsigned\<close>, so
  every arithmetic expression of \<open>compute_dispmap\<close> is word arithmetic (wrapping). The two
  types differ in how a value is read (\<open>sint\<close> for \<open>int\<close>, \<open>uint\<close> for \<open>unsigned\<close>), in the
  comparison (\<open><s\<close> for \<open>int\<close>, \<open><\<close> for \<open>unsigned\<close>) and in the division.
  Only two operations of \<open>compute_dispmap\<close> are carried out on \<open>int\<close>: the sum
  \<open>limg.cols + mindisp\<close> and the increment \<open>x++\<close>. Where their result leaves the range of
  \<open>int\<close>, which C++ leaves undefined, they wrap around here as well.
\<close>

type_synonym uchar = "8 word"
type_synonym cint = "32 word"
type_synonym cuint = "32 word"

text \<open>The failures of an invocation: the region-of-interest assertion of \<open>cv::Mat\<close>,
  the size requirement of \<open>cv::matchTemplate\<close>, and an element access outside the matrix.\<close>

datatype error = OutOfBounds | BadTemplate | BadAccess

record Point =
  pt_x :: cint
  pt_y :: cint

record Size =
  sz_width :: cint
  sz_height :: cint

record Rect =
  rect_x :: cint
  rect_y :: cint
  rect_width :: cint
  rect_height :: cint

text \<open>A single-channel 8-bit \<open>cv::Mat\<close>: its dimensions and its samples by row and column.\<close>

record Mat =
  mat_rows :: cint
  mat_cols :: cint
  mat_at :: "nat \<Rightarrow> nat \<Rightarrow> uchar"

text \<open>Modelled from the spec: the constructor \<open>cv::Rect(Point org, Size sz)\<close> of OpenCV
  (not under src/): origin \<open>org\<close>, size \<open>sz\<close> (section 4.2).\<close>

definition Rect_org_sz :: "Point \<Rightarrow> Size \<Rightarrow> Rect" where
  "Rect_org_sz org sz =
     \<lparr>rect_x = pt_x org, rect_y = pt_y org, rect_width = sz_width sz, rect_height = sz_height sz\<rparr>"

text \<open>Modelled from the spec: the constructor \<open>cv::Rect(Point pt1, Point pt2)\<close> of OpenCV
  (not under src/): the rectangle spanned by two corners, the origin being the smaller
  coordinate of each axis and the size the difference to the larger one (section 4.3).\<close>

definition smin :: "cint \<Rightarrow> cint \<Rightarrow> cint" where
  "smin a b = (if b <s a then b else a)"

definition smax :: "cint \<Rightarrow> cint \<Rightarrow> cint" where
  "smax a b = (if a <s b then b else a)"

definition Rect_pt1_pt2 :: "Point \<Rightarrow> Point \<Rightarrow> Rect" where
  "Rect_pt1_pt2 pt1 pt2 =
     (let x = smin (pt_x pt1) (pt_x pt2); y = smin (pt_y pt1) (pt_y pt2) in
      \<lparr>rect_x = x, rect_y = y,
       rect_width = smax (pt_x pt1) (pt_x pt2) - x,
       rect_height = smax (pt_y pt1) (pt_y pt2) - y\<rparr>)"

text \<open>Modelled from the spec: \<open>cv::Mat::operator()(const Rect&)\<close> of OpenCV (not under
  src/), the Block Extractor and Search Window Builder of sections 4.2 and 4.3: a view of the
  region, failing with \<open>OutOfBounds\<close> if the region does not fit entirely within the grid.
  The region fits if its origin and its size are not negative and its far edges, as sums
  of integers, do not exceed the dimensions of the grid.\<close>

definition roi_fits :: "Mat \<Rightarrow> Rect \<Rightarrow> bool" where
  "roi_fits m roi \<longleftrightarrow>
     0 \<le> sint (rect_x roi) \<and> 0 \<le> sint (rect_width roi) \<and>
     sint (rect_x roi) + sint (rect_width roi) \<le> sint (mat_cols m) \<and>
     0 \<le> sint (rect_y roi) \<and> 0 \<le> sint (rect_height roi) \<and>
     sint (rect_y roi) + sint (rect_height roi) \<le> sint (mat_rows m)"

definition Mat_roi :: "Mat \<Rightarrow> Rect \<Rightarrow> error + Mat" where
  "Mat_roi m roi =
     (if roi_fits m roi
      then Inr \<lparr>mat_rows = rect_height roi, mat_cols = rect_width roi,
                mat_at = (\<lambda>i j. mat_at m (nat (sint (rect_y roi)) + i) (nat (sint (rect_x roi)) + j))\<rparr>
      else Inl OutOfBounds)"

text \<open>The samples of the \<open>h\<close>-by-\<open>w\<close> window of a matrix whose top-left sample is at row
  \<open>r\<close>, column \<open>c\<close>, row by row.\<close>

definition window :: "Mat \<Rightarrow> nat \<Rightarrow> nat \<Rightarrow> nat \<Rightarrow> nat \<Rightarrow> uchar list list" where
  "window m r c h w = map (\<lambda>i. map (\<lambda>j. mat_at m (r + i) (c + j)) [0..<w]) [0..<h]"

text \<open>Modelled from the spec: \<open>cv::matchTemplate\<close> with \<open>TM_CCORR_NORMED\<close> of OpenCV (not
  under src/), the Correlation Scorer of section 4.4. For an image of \<open>W\<close> by \<open>H\<close> samples
  and a template of \<open>w\<close> by \<open>h\<close> samples that is not empty and not greater than the image,
  the result has \<open>W - w + 1\<close> columns and \<open>H - h + 1\<close> rows, and its entry in row \<open>i\<close>, column
  \<open>k\<close> is the score of the template against the window of the image whose top-left sample
  is at row \<open>i\<close>, column \<open>k\<close>. The score itself is floating-point arithmetic: it is the
  parameter \<open>ncc\<close>, a function of the two windows into a linear order.\<close>

definition matchTemplate ::
  "(uchar list list \<Rightarrow> uchar list list \<Rightarrow> 'a) \<Rightarrow> Mat \<Rightarrow> Mat \<Rightarrow> error + 'a list list" where
  "matchTemplate ncc img templ =
     (let H = sint (mat_rows img); W = sint (mat_cols img);
          h = sint (mat_rows templ); w = sint (mat_cols templ) in
      if 1 \<le> w \<and> 1 \<le> h \<and> w \<le> W \<and> h \<le> H
      then Inr (map (\<lambda>i. map (\<lambda>k. ncc (window img i k (nat h) (nat w))
                                       (window templ 0 0 (nat h) (nat w)))
                             [0..<nat (W - w + 1)])
                    [0..<nat (H - h + 1)])
      else Inl BadTemplate)"

text \<open>Modelled from the spec: the Disparity Selector of section 4.5. The scan runs from
  index 0 and replaces the best score only by a strictly greater one, so that the first
  occurrence of the maximum is kept.\<close>

fun max_scan :: "'a::linorder \<Rightarrow> nat \<Rightarrow> nat \<Rightarrow> 'a list \<Rightarrow> nat" where
  "max_scan best bi i [] = bi"
| "max_scan best bi i (v # vs) =
     (if best < v then max_scan v i (Suc i) vs else max_scan best bi (Suc i) vs)"

definition selectBest :: "'a::linorder list \<Rightarrow> nat" where
  "selectBest scoreRow = (case scoreRow of [] \<Rightarrow> 0 | v # vs \<Rightarrow> max_scan v 0 1 vs)"

text \<open>Modelled from the spec: \<open>cv::minMaxLoc\<close> of OpenCV (not under src/), asked for the
  location of the maximum only: the matrix is scanned row by row, and the location is the
  column (\<open>x\<close>) and the row (\<open>y\<close>) of the first maximum.\<close>

definition minMaxLoc :: "'a::linorder list list \<Rightarrow> Point" where
  "minMaxLoc nccs =
     (let n = (case nccs of [] \<Rightarrow> 0 | r # _ \<Rightarrow> length r); k = selectBest (concat nccs) in
      if n = 0 then \<lparr>pt_x = 0, pt_y = 0\<rparr>
      else \<lparr>pt_x = of_nat (k mod n), pt_y = of_nat (k div n)\<rparr>)"

text \<open>The assignment \<open>dispmap.at<uchar>(y, x) = v\<close> of line 100. The row and the column
  are converted to \<open>int\<close>; an access outside the matrix has no defined behaviour in C++
  (OpenCV asserts the range in debug builds only) and is the error \<open>BadAccess\<close> here.\<close>

definition Mat_set :: "Mat \<Rightarrow> cint \<Rightarrow> cint \<Rightarrow> uchar \<Rightarrow> error + Mat" where
  "Mat_set m i j v =
     (if 0 \<le> sint i \<and> sint i < sint (mat_rows m) \<and> 0 \<le> sint j \<and> sint j < sint (mat_cols m)
      then Inr (m\<lparr>mat_at := (mat_at m)(nat (sint i) := (mat_at m (nat (sint i)))(nat (sint j) := v))\<rparr>)
      else Inl BadAccess)"

section \<open>The Disparity Engine\<close>

text \<open>The rectangle \<open>block\<close> of line 89, centred at \<open>(x, y)\<close> in the left image.\<close>

definition block :: "cint \<Rightarrow> cuint \<Rightarrow> cuint \<Rightarrow> cint \<Rightarrow> Rect" where
  "block blocksize w y x =
     Rect_org_sz \<lparr>pt_x = x - w, pt_y = y - w\<rparr> \<lparr>sz_width = blocksize, sz_height = blocksize\<rparr>"

text \<open>The rectangle \<open>slice\<close> of lines 92 and 93, the search strip in the right image.\<close>

definition slice :: "cint \<Rightarrow> cuint \<Rightarrow> cuint \<Rightarrow> cint \<Rightarrow> cint \<Rightarrow> Rect" where
  "slice mindisp w y maxdisp x =
     Rect_pt1_pt2 \<lparr>pt_x = x - w - maxdisp, pt_y = y - w\<rparr>
                  \<lparr>pt_x = x + w + 1 - mindisp, pt_y = y + w + 1\<rparr>"

text \<open>The body of the inner loop of \<open>compute_dispmap\<close> (lines 89 to 100): the block of
  the left image, the slice of the right image, the scores, the location of the maximum,
  and the assignment of its column, narrowed to 8 bits, to the cell.\<close>

definition dispmap_cell ::
  "(uchar list list \<Rightarrow> uchar list list \<Rightarrow> 'a::linorder) \<Rightarrow> Mat \<Rightarrow> Mat \<Rightarrow> cint \<Rightarrow> cint \<Rightarrow>
   cuint \<Rightarrow> cuint \<Rightarrow> cint \<Rightarrow> cint \<Rightarrow> Mat \<Rightarrow> error + Mat" where
  "dispmap_cell ncc limg rimg mindisp blocksize w y maxdisp x dispmap =
     (case Mat_roi limg (block blocksize w y x) of
        Inl e \<Rightarrow> Inl e
      | Inr feature \<Rightarrow>
          (case Mat_roi rimg (slice mindisp w y maxdisp x) of
             Inl e \<Rightarrow> Inl e
           | Inr img \<Rightarrow>
               (case matchTemplate ncc img feature of
                  Inl e \<Rightarrow> Inl e
                | Inr nccs \<Rightarrow> Mat_set dispmap y x (ucast (pt_x (minMaxLoc nccs))))))"

text \<open>The inner loop (lines 87 to 101). The comparison \<open>x < limg.cols + mindisp - w - 1\<close>
  has an \<open>unsigned\<close> right-hand side, so it is the unsigned comparison.\<close>

function col_loop ::
  "(uchar list list \<Rightarrow> uchar list list \<Rightarrow> 'a::linorder) \<Rightarrow> Mat \<Rightarrow> Mat \<Rightarrow> cint \<Rightarrow> cint \<Rightarrow>
   cuint \<Rightarrow> cuint \<Rightarrow> cint \<Rightarrow> cint \<Rightarrow> Mat \<Rightarrow> error + Mat" where
  "col_loop ncc limg rimg mindisp blocksize w y maxdisp x dispmap =
     (if x < mat_cols limg + mindisp - w - 1
      then (case dispmap_cell ncc limg rimg mindisp blocksize w y maxdisp x dispmap of
              Inl e \<Rightarrow> Inl e
            | Inr dispmap' \<Rightarrow> col_loop ncc limg rimg mindisp blocksize w y maxdisp (x + 1) dispmap')
      else Inr dispmap)"
  by pat_completeness auto
termination
proof (relation "measure (\<lambda>(ncc, limg, rimg, mindisp, blocksize, w, y, maxdisp, x, dispmap).
                     unat (mat_cols limg + mindisp - w - 1) - unat x)", goal_cases)
  case 1
  show ?case by simp
next
  case (2 ncc limg rimg mindisp blocksize w y maxdisp x dispmap x2)
  have "unat b - unat (x + 1) < unat b - unat x" if "x < b" for b
    using that by unat_arith
  from this [OF 2(1)] show ?case by simp
qed

text \<open>The outer loop (lines 86 to 102). \<open>y\<close> and \<open>w\<close> are \<open>unsigned\<close>, so
  \<open>limg.rows - w - 1\<close> is computed modulo \<open>2 ^ 32\<close> and the comparison is unsigned. The
  initialisation of the inner loop computes \<open>maxdisp\<close> and the first column.\<close>

function row_loop ::
  "(uchar list list \<Rightarrow> uchar list list \<Rightarrow> 'a::linorder) \<Rightarrow> Mat \<Rightarrow> Mat \<Rightarrow> cuint \<Rightarrow> cint \<Rightarrow> cint \<Rightarrow>
   cuint \<Rightarrow> cuint \<Rightarrow> Mat \<Rightarrow> error + Mat" where
  "row_loop ncc limg rimg numdisp mindisp blocksize w y dispmap =
     (if y < mat_rows limg - w - 1
      then (let maxdisp = numdisp + mindisp; x = maxdisp + w in
            case col_loop ncc limg rimg mindisp blocksize w y maxdisp x dispmap of
              Inl e \<Rightarrow> Inl e
            | Inr dispmap' \<Rightarrow> row_loop ncc limg rimg numdisp mindisp blocksize w (y + 1) dispmap')
      else Inr dispmap)"
  by pat_completeness auto
termination
proof (relation "measure (\<lambda>(ncc, limg, rimg, numdisp, mindisp, blocksize, w, y, dispmap).
                     unat (mat_rows limg - w - 1) - unat y)", goal_cases)
  case 1
  show ?case by simp
next
  case (2 ncc limg rimg numdisp mindisp blocksize w y dispmap maxdisp x x2)
  have "unat b - unat (y + 1) < unat b - unat y" if "y < b" for b
    using that by unat_arith
  from this [OF 2(1)] show ?case by simp
qed

text \<open>The half-width \<open>w = blocksize / 2\<close> of line 86: the division of \<open>int\<close>, which
  truncates, converted to \<open>unsigned\<close>.\<close>

definition half_width :: "cint \<Rightarrow> cuint" where
  "half_width blocksize = word_of_int (sint blocksize sdiv 2)"

text \<open>\<open>compute_dispmap\<close> (lines 82 to 104). The output matrix is allocated with the
  dimensions of the left image and is not initialised: its content at allocation is the
  parameter \<open>alloc\<close>.\<close>

definition compute_dispmap ::
  "(uchar list list \<Rightarrow> uchar list list \<Rightarrow> 'a::linorder) \<Rightarrow> Mat \<times> Mat \<Rightarrow> cuint \<Rightarrow> cint \<Rightarrow> cint \<Rightarrow>
   (nat \<Rightarrow> nat \<Rightarrow> uchar) \<Rightarrow> error + Mat" where
  "compute_dispmap ncc stereo_imgs numdisp mindisp blocksize alloc =
     (let limg = fst stereo_imgs; rimg = snd stereo_imgs;
          dispmap = \<lparr>mat_rows = mat_rows limg, mat_cols = mat_cols limg, mat_at = alloc\<rparr>;
          w = half_width blocksize in
      row_loop ncc limg rimg numdisp mindisp blocksize w w dispmap)"

declare col_loop.simps [simp del] row_loop.simps [simp del]

section \<open>The eligible range and the score row of the specification\<close>

text \<open>The eligible range of section 4.1, over the integers: \<open>y\<close> in \<open>[w, rows - w - 2]\<close>
  and \<open>x\<close> in \<open>[maxdisp + w, cols + mindisp - w - 2]\<close>, where \<open>w\<close> is the half-width and
  \<open>maxdisp = numdisp + mindisp\<close> is the sum of the two integers (the variable \<open>maxdisp\<close> of
  line 87 is an \<open>int\<close> and holds this sum only up to the greatest \<open>int\<close>).\<close>

definition eligible :: "Mat \<Rightarrow> cuint \<Rightarrow> cint \<Rightarrow> cint \<Rightarrow> int \<Rightarrow> int \<Rightarrow> bool" where
  "eligible limg numdisp mindisp blocksize x y \<longleftrightarrow>
     (let w = uint (half_width blocksize); maxdisp = uint numdisp + sint mindisp in
      w \<le> y \<and> y \<le> sint (mat_rows limg) - w - 2 \<and>
      maxdisp + w \<le> x \<and> x \<le> sint (mat_cols limg) + sint mindisp - w - 2)"

text \<open>The pairs of a list of rows and a list of columns in row-major order.\<close>

definition row_major :: "'a list \<Rightarrow> 'b list \<Rightarrow> ('a \<times> 'b) list" where
  "row_major ys xs = concat (map (\<lambda>y. map (Pair y) xs) ys)"

text \<open>The eligible coordinates, as pairs \<open>(y, x)\<close>, in row-major order.\<close>

definition eligible_coords :: "Mat \<Rightarrow> cuint \<Rightarrow> cint \<Rightarrow> cint \<Rightarrow> (int \<times> int) list" where
  "eligible_coords limg numdisp mindisp blocksize =
     (let w = uint (half_width blocksize); maxdisp = uint numdisp + sint mindisp in
      row_major [w..sint (mat_rows limg) - w - 2]
                [maxdisp + w..sint (mat_cols limg) + sint mindisp - w - 2])"

text \<open>The score row of sections 3 and 4.4 at the coordinate \<open>(x, y)\<close>: \<open>numdisp + 1\<close>
  scores, the one of index \<open>k\<close> comparing the block, whose origin is \<open>(x - w, y - w)\<close> in the
  left grid, with the window of the same size that starts \<open>k\<close> samples from the left edge
  of the search strip, whose origin is \<open>(x - w - maxdisp, y - w)\<close> in the right grid.\<close>

definition score_row ::
  "(uchar list list \<Rightarrow> uchar list list \<Rightarrow> 'a) \<Rightarrow> Mat \<Rightarrow> Mat \<Rightarrow> cuint \<Rightarrow> cint \<Rightarrow> cint \<Rightarrow>
   int \<Rightarrow> int \<Rightarrow> 'a list" where
  "score_row ncc limg rimg numdisp mindisp blocksize x y =
     (let w = uint (half_width blocksize); maxdisp = uint numdisp + sint mindisp;
          b = nat (sint blocksize) in
      map (\<lambda>k. ncc (window rimg (nat (y - w)) (nat (x - w - maxdisp) + k) b b)
                    (window limg (nat (y - w)) (nat (x - w)) b b))
          [0..<unat numdisp + 1])"

text \<open>The grid with the cell of row \<open>y\<close>, column \<open>x\<close> set to \<open>v\<close>.\<close>

definition store :: "Mat \<Rightarrow> int \<Rightarrow> int \<Rightarrow> uchar \<Rightarrow> Mat" where
  "store m y x v = m\<lparr>mat_at := (mat_at m)(nat y := (mat_at m (nat y))(nat x := v))\<rparr>"

text \<open>The parameters on which no computation of the loop bounds wraps around and every
  block and search strip of the eligible range lies inside its grid: grids of equal,
  non-zero dimensions, an odd block size of at least 1 whose half-width is smaller than
  \<open>rows\<close> and than \<open>cols + mindisp\<close>, \<open>mindisp\<close> at most 1, and \<open>numdisp + mindisp\<close>
  between 0 and the greatest \<open>int\<close>.\<close>

definition regular_parameters :: "Mat \<Rightarrow> Mat \<Rightarrow> cuint \<Rightarrow> cint \<Rightarrow> cint \<Rightarrow> bool" where
  "regular_parameters limg rimg numdisp mindisp blocksize \<longleftrightarrow>
     mat_rows rimg = mat_rows limg \<and> mat_cols rimg = mat_cols limg \<and>
     0 < sint (mat_rows limg) \<and> 0 < sint (mat_cols limg) \<and>
     0 < sint blocksize \<and> odd (sint blocksize) \<and>
     sint blocksize div 2 < sint (mat_rows limg) \<and>
     sint blocksize div 2 < sint (mat_cols limg) + sint mindisp \<and>
     sint mindisp \<le> 1 \<and>
     0 \<le> uint numdisp + sint mindisp \<and> uint numdisp + sint mindisp < 2147483648"

section \<open>Loops as visits of a list of coordinates\<close>

text \<open>A step applied to each coordinate of a list in turn, stopping at the first failure.\<close>

fun visit :: "('c \<Rightarrow> 's \<Rightarrow> error + 's) \<Rightarrow> 'c list \<Rightarrow> 's \<Rightarrow> error + 's" where
  "visit f [] s = Inr s"
| "visit f (c # cs) s = (case f c s of Inl e \<Rightarrow> Inl e | Inr s' \<Rightarrow> visit f cs s')"

text \<open>The words from \<open>a\<close> up to, and without, \<open>b\<close> in the unsigned order.\<close>

definition word_range :: "32 word \<Rightarrow> 32 word \<Rightarrow> 32 word list" where
  "word_range a b = map of_nat [unat a..<unat b]"

section \<open>Example grids and an example score\<close>

text \<open>A score for concrete runs: 1 for equal windows, 0 otherwise. It stands for the
  parameter \<open>ncc\<close> in evaluations only.\<close>

definition equal_score :: "uchar list list \<Rightarrow> uchar list list \<Rightarrow> nat" where
  "equal_score a b = (if a = b then 1 else 0)"

text \<open>A grid whose samples count up row by row, and a grid that is 0 except for one column
  of ones.\<close>

definition ramp_grid :: "cint \<Rightarrow> cint \<Rightarrow> Mat" where
  "ramp_grid r c = \<lparr>mat_rows = r, mat_cols = c, mat_at = (\<lambda>i j. of_nat (i * unat c + j))\<rparr>"

definition spike_grid :: "cint \<Rightarrow> cint \<Rightarrow> nat \<Rightarrow> Mat" where
  "spike_grid r c k = \<lparr>mat_rows = r, mat_cols = c, mat_at = (\<lambda>i j. if j = k then 1 else 0)\<rparr>"

section \<open>Words and integers\<close>

lemma sint_of_int32:
  "- 2147483648 \<le> k \<Longrightarrow> k < 2147483648 \<Longrightarrow> sint (word_of_int k :: 32 word) = k"
  by (simp add: sint_sbintrunc' signed_take_bit_int_eq_self)

lemma uint_of_int32:
  "0 \<le> k \<Longrightarrow> k < 4294967296 \<Longrightarrow> uint (word_of_int k :: 32 word) = k"
  by (simp add: uint_word_of_int)

lemma sint_bounds32: "- 2147483648 \<le> sint (v :: 32 word)" "sint (v :: 32 word) < 2147483648"
  using sint_ge [of v] sint_lt [of v] by simp_all



lemma uint_minus_one_32: "uint (- 1 :: 32 word) = 4294967295"
  by code_simp

lemma ucast_of_nat_32_8: "(ucast (of_nat k :: 32 word) :: 8 word) = of_nat k"
  by (simp add: unsigned_of_nat take_bit_eq_mod word_eq_iff_unsigned [where ?'a = nat] unat_of_nat mod_mod_cancel)

lemma unat_stored_index:
  "unat (ucast (of_nat k :: cint) :: uchar) = k mod 256"
  by (simp add: ucast_of_nat_32_8 unat_of_nat)

lemma unat_ucast_32_8: "unat (ucast (v :: 32 word) :: 8 word) = unat v mod 256"
proof -
  have "ucast v = (ucast (of_nat (unat v) :: 32 word) :: 8 word)" by simp
  then show ?thesis by (simp only: unat_stored_index)
qed

lemma half_width_nonneg:
  assumes "0 \<le> sint blocksize"
  shows "uint (half_width blocksize) = sint blocksize div 2"
proof -
  have "sint blocksize sdiv 2 = sint blocksize div 2"
    using assms by (simp add: signed_divide_int_def sgn_if)
  moreover have "0 \<le> sint blocksize div 2" "sint blocksize div 2 < 4294967296"
    using assms sint_bounds32 [of blocksize] by simp_all
  ultimately show ?thesis by (simp add: half_width_def uint_of_int32)
qed

lemma map_int_upt: "map int [m..<n] = [int m..int n - 1]"
proof (induction n)
  case 0
  then show ?case by simp
next
  case (Suc n)
  show ?case
  proof (cases "m \<le> n")
    case True
    have "[int m..int (Suc n) - 1] = [int m..int n - 1] @ [int n]"
      using True upto_rec2 [of "int m" "int n"] by simp
    then show ?thesis using True Suc by simp
  next
    case False
    then show ?thesis by simp
  qed
qed

section \<open>Ranges of words\<close>

lemma word_range_Nil: "\<not> a < b \<Longrightarrow> word_range a b = []"
  by (simp add: word_range_def word_less_nat_alt)

lemma word_range_Cons:
  assumes "a < b"
  shows "word_range a b = a # word_range (a + 1) b"
proof -
  have lt: "unat a < unat b" using assms by (simp add: word_less_nat_alt)
  have suc: "unat (a + 1) = Suc (unat a)" using assms by unat_arith
  have "[unat a..<unat b] = unat a # [Suc (unat a)..<unat b]"
    using lt by (simp add: upt_conv_Cons)
  then show ?thesis by (simp add: word_range_def suc)
qed


lemma word_range_of_int:
  assumes "0 \<le> a" "a < 4294967296" "0 \<le> b" "b < 4294967296"
  shows "word_range (word_of_int a) (word_of_int b) = map word_of_int [a..b - 1]"
proof -
  have u: "unat (word_of_int a :: 32 word) = nat a" "unat (word_of_int b :: 32 word) = nat b"
    using assms by (simp_all add: unat_eq_nat_uint uint_of_int32)
  have "[a..b - 1] = map int [nat a..<nat b]"
    using assms map_int_upt [of "nat a" "nat b"] by simp
  then have "map word_of_int [a..b - 1] = (map of_nat [nat a..<nat b] :: 32 word list)"
    by (simp add: comp_def)
  then show ?thesis by (simp add: word_range_def u)
qed

section \<open>Visits\<close>

lemma visit_append:
  "visit f (cs @ ds) s = (case visit f cs s of Inl e \<Rightarrow> Inl e | Inr s' \<Rightarrow> visit f ds s')"
  by (induction cs arbitrary: s) (auto split: sum.splits)

lemma visit_row_major:
  "visit (\<lambda>y. visit (f y) xs) ys s = visit (\<lambda>(y, x). f y x) (row_major ys xs) s"
proof (induction ys arbitrary: s)
  case Nil
  then show ?case by (simp add: row_major_def)
next
  case (Cons y ys)
  have inner: "visit (\<lambda>(y, x). f y x) (map (Pair y) xs) s = visit (f y) xs s" for s
    by (induction xs arbitrary: s) (auto split: sum.splits)
  have "row_major (y # ys) xs = map (Pair y) xs @ row_major ys xs"
    by (simp add: row_major_def)
  then show ?case using Cons.IH
    by (simp add: visit_append inner split: sum.splits)
qed

lemma visit_map: "visit f (map h cs) s = visit (\<lambda>c. f (h c)) cs s"
  by (induction cs arbitrary: s) (auto split: sum.splits)

lemma row_major_map: "row_major (map f ys) (map g xs) = map (map_prod f g) (row_major ys xs)"
  by (simp add: row_major_def map_concat comp_def)

lemma set_row_major: "set (row_major ys xs) = set ys \<times> set xs"
  by (auto simp: row_major_def)




lemma visit_all_Inr:
  assumes "\<And>c s. c \<in> set cs \<Longrightarrow> I s \<Longrightarrow> f c s = Inr (g c s) \<and> I (g c s)" and "I s"
  shows "visit f cs s = Inr (fold g cs s)"
  using assms
proof (induction cs arbitrary: s)
  case Nil
  then show ?case by simp
next
  case (Cons a cs)
  have a: "f a s = Inr (g a s)" "I (g a s)" using Cons.prems(1) [of a s] Cons.prems(2) by simp_all
  have "visit f cs (g a s) = Inr (fold g cs (g a s))"
    using Cons.prems(1) a(2) by (intro Cons.IH) simp_all
  then show ?case using a(1) by simp
qed

section \<open>The loops visit the unsigned ranges of their bounds\<close>

text \<open>Whatever the parameters, the inner loop visits the columns from its first one up to
  its bound in the unsigned order, the outer loop the rows likewise, and the engine the
  pairs of both in row-major order, stopping at the first failure.\<close>

lemma col_loop_visit:
  "col_loop ncc limg rimg mindisp blocksize w y maxdisp x dispmap =
   visit (dispmap_cell ncc limg rimg mindisp blocksize w y maxdisp)
         (word_range x (mat_cols limg + mindisp - w - 1)) dispmap"
proof (induction ncc limg rimg mindisp blocksize w y maxdisp x dispmap rule: col_loop.induct)
  case (1 ncc limg rimg mindisp blocksize w y maxdisp x dispmap)
  show ?case
  proof (cases "x < mat_cols limg + mindisp - w - 1")
    case True
    show ?thesis
    proof (cases "dispmap_cell ncc limg rimg mindisp blocksize w y maxdisp x dispmap")
      case (Inl e)
      then show ?thesis using True
        by (subst col_loop.simps) (simp add: word_range_Cons)
    next
      case (Inr d')
      then show ?thesis using True "1.IH" [OF True Inr]
        by (subst col_loop.simps) (simp add: word_range_Cons)
    qed
  next
    case False
    then show ?thesis
      by (subst col_loop.simps) (simp add: word_range_Nil)
  qed
qed

lemma col_loop_visit_fun:
  "col_loop ncc limg rimg mindisp blocksize w y maxdisp x =
   visit (dispmap_cell ncc limg rimg mindisp blocksize w y maxdisp)
         (word_range x (mat_cols limg + mindisp - w - 1))"
  by (rule ext) (rule col_loop_visit)

lemma row_loop_visit:
  "row_loop ncc limg rimg numdisp mindisp blocksize w y dispmap =
   visit (\<lambda>y. col_loop ncc limg rimg mindisp blocksize w y (numdisp + mindisp) (numdisp + mindisp + w))
         (word_range y (mat_rows limg - w - 1)) dispmap"
proof (induction ncc limg rimg numdisp mindisp blocksize w y dispmap rule: row_loop.induct)
  case (1 ncc limg rimg numdisp mindisp blocksize w y dispmap)
  show ?case
  proof (cases "y < mat_rows limg - w - 1")
    case True
    show ?thesis
    proof (cases "col_loop ncc limg rimg mindisp blocksize w y (numdisp + mindisp) (numdisp + mindisp + w) dispmap")
      case (Inl e)
      then show ?thesis using True
        by (subst row_loop.simps) (simp add: word_range_Cons Let_def)
    next
      case (Inr d')
      then show ?thesis using True "1.IH" [OF True refl refl Inr]
        by (subst row_loop.simps) (simp add: word_range_Cons Let_def)
    qed
  next
    case False
    then show ?thesis
      by (subst row_loop.simps) (simp add: word_range_Nil)
  qed
qed

lemma compute_dispmap_visit:
  "compute_dispmap ncc (limg, rimg) numdisp mindisp blocksize alloc =
   visit (\<lambda>(y, x). dispmap_cell ncc limg rimg mindisp blocksize (half_width blocksize) y
                      (numdisp + mindisp) x)
     (row_major (word_range (half_width blocksize) (mat_rows limg - half_width blocksize - 1))
                (word_range (numdisp + mindisp + half_width blocksize)
                            (mat_cols limg + mindisp - half_width blocksize - 1)))
     \<lparr>mat_rows = mat_rows limg, mat_cols = mat_cols limg, mat_at = alloc\<rparr>"
proof -
  let ?w = "half_width blocksize"
  let ?init = "\<lparr>mat_rows = mat_rows limg, mat_cols = mat_cols limg, mat_at = alloc\<rparr>"
  have "compute_dispmap ncc (limg, rimg) numdisp mindisp blocksize alloc =
        visit (\<lambda>y. visit (dispmap_cell ncc limg rimg mindisp blocksize ?w y (numdisp + mindisp))
                        (word_range (numdisp + mindisp + ?w) (mat_cols limg + mindisp - ?w - 1)))
              (word_range ?w (mat_rows limg - ?w - 1)) ?init"
    by (simp add: compute_dispmap_def Let_def row_loop_visit col_loop_visit_fun)
  also have "\<dots> = visit (\<lambda>(y, x). dispmap_cell ncc limg rimg mindisp blocksize ?w y (numdisp + mindisp) x)
              (row_major (word_range ?w (mat_rows limg - ?w - 1))
                 (word_range (numdisp + mindisp + ?w) (mat_cols limg + mindisp - ?w - 1))) ?init"
    by (rule visit_row_major)
  finally show ?thesis .
qed

section \<open>The Disparity Selector\<close>

lemma max_scan_first_max:
  assumes "i = length pre" "bi < i" "best = (pre @ vs) ! bi"
    and "\<forall>j<i. (pre @ vs) ! j \<le> best" "\<forall>j<bi. (pre @ vs) ! j < best"
  shows "max_scan best bi i vs < length (pre @ vs) \<and>
         (\<forall>j<length (pre @ vs). (pre @ vs) ! j \<le> (pre @ vs) ! max_scan best bi i vs) \<and>
         (\<forall>j<max_scan best bi i vs. (pre @ vs) ! j < (pre @ vs) ! max_scan best bi i vs)"
  using assms
proof (induction vs arbitrary: pre best bi i)
  case Nil
  then show ?case by simp
next
  case (Cons v vs)
  have split: "pre @ v # vs = (pre @ [v]) @ vs" by simp
  have vi: "(pre @ v # vs) ! i = v" using Cons.prems(1) by simp
  show ?case
  proof (cases "best < v")
    case True
    have le: "\<forall>j<Suc i. ((pre @ [v]) @ vs) ! j \<le> v"
    proof (intro allI impI)
      fix j assume "j < Suc i"
      then consider "j < i" | "j = i" by linarith
      then show "((pre @ [v]) @ vs) ! j \<le> v"
      proof cases
        case 1
        then have "(pre @ v # vs) ! j \<le> best" using Cons.prems(4) by blast
        then show ?thesis using True by simp
      next
        case 2
        then show ?thesis using vi by simp
      qed
    qed
    have lt: "\<forall>j<i. ((pre @ [v]) @ vs) ! j < v"
    proof (intro allI impI)
      fix j assume "j < i"
      then have "(pre @ v # vs) ! j \<le> best" using Cons.prems(4) by blast
      then show "((pre @ [v]) @ vs) ! j < v" using True by simp
    qed
    have "Suc i = length (pre @ [v])" "i < Suc i" "v = ((pre @ [v]) @ vs) ! i"
      using Cons.prems(1) vi by simp_all
    from Cons.IH [OF this le lt] show ?thesis using True by simp
  next
    case False
    have le: "\<forall>j<Suc i. ((pre @ [v]) @ vs) ! j \<le> best"
    proof (intro allI impI)
      fix j assume "j < Suc i"
      then consider "j < i" | "j = i" by linarith
      then show "((pre @ [v]) @ vs) ! j \<le> best"
      proof cases
        case 1
        then show ?thesis using Cons.prems(4) by simp
      next
        case 2
        then show ?thesis using vi False by simp
      qed
    qed
    have lt: "\<forall>j<bi. ((pre @ [v]) @ vs) ! j < best"
      using Cons.prems(5) by simp
    have "Suc i = length (pre @ [v])" "bi < Suc i" "best = ((pre @ [v]) @ vs) ! bi"
      using Cons.prems(1,2,3) by simp_all
    from Cons.IH [OF this le lt] show ?thesis using False by simp
  qed
qed

lemma selectBest_less: "scoreRow \<noteq> [] \<Longrightarrow> selectBest scoreRow < length scoreRow"
proof -
  assume "scoreRow \<noteq> []"
  then obtain v vs where row: "scoreRow = v # vs" by (cases scoreRow) auto
  have "max_scan v 0 1 vs < length ([v] @ vs) \<and>
        (\<forall>j<length ([v] @ vs). ([v] @ vs) ! j \<le> ([v] @ vs) ! max_scan v 0 1 vs) \<and>
        (\<forall>j<max_scan v 0 1 vs. ([v] @ vs) ! j < ([v] @ vs) ! max_scan v 0 1 vs)"
    by (rule max_scan_first_max) simp_all
  then show ?thesis by (simp add: row selectBest_def)
qed

lemma minMaxLoc_single_row:
  assumes "row \<noteq> []"
  shows "pt_x (minMaxLoc [row]) = of_nat (selectBest row)"
  using assms selectBest_less [OF assms] by (simp add: minMaxLoc_def Let_def)

text \<open>Claim C4. For every score row that is not empty, the selector returns an index of the
  row at which the score is the maximum of the row, and every earlier index holds a
  strictly smaller score: of the indices that attain the maximum, the selected one is the
  smallest. The selector is a function of the row, so the choice is the same on every
  run.\<close>

theorem selectBest_first_maximum:
  assumes "scoreRow \<noteq> []"
  shows "selectBest scoreRow < length scoreRow \<and>
         (\<forall>j<length scoreRow. scoreRow ! j \<le> scoreRow ! selectBest scoreRow) \<and>
         (\<forall>j. j < selectBest scoreRow \<longrightarrow> scoreRow ! j < scoreRow ! selectBest scoreRow)"
proof -
  obtain v vs where row: "scoreRow = v # vs" using assms by (cases scoreRow) auto
  have "max_scan v 0 1 vs < length ([v] @ vs) \<and>
        (\<forall>j<length ([v] @ vs). ([v] @ vs) ! j \<le> ([v] @ vs) ! max_scan v 0 1 vs) \<and>
        (\<forall>j<max_scan v 0 1 vs. ([v] @ vs) ! j < ([v] @ vs) ! max_scan v 0 1 vs)"
    by (rule max_scan_first_max) simp_all
  then show ?thesis by (simp add: row selectBest_def)
qed

theorem selectBest_first_maximum_witness:
  "[1, 3, 2, 3 :: int] \<noteq> [] \<and> selectBest [1, 3, 2, 3 :: int] = 1 \<and>
   [1, 3, 2, 3 :: int] ! 3 \<le> [1, 3, 2, 3] ! selectBest [1, 3, 2, 3 :: int] \<and>
   [1, 3, 2, 3 :: int] ! 0 < [1, 3, 2, 3] ! selectBest [1, 3, 2, 3 :: int]"
proof -
  have ne: "[1, 3, 2, 3 :: int] \<noteq> []" by simp
  have k: "selectBest [1, 3, 2, 3 :: int] = 1" by (simp add: selectBest_def)
  from selectBest_first_maximum [OF ne] k
  have "[1, 3, 2, 3 :: int] ! 3 \<le> [1, 3, 2, 3] ! selectBest [1, 3, 2, 3 :: int]"
    and "[1, 3, 2, 3 :: int] ! 0 < [1, 3, 2, 3] ! selectBest [1, 3, 2, 3 :: int]"
    by simp_all
  with ne k show ?thesis by simp
qed

section \<open>The search strip\<close>

lemma Rect_pt1_pt2_of_int:
  assumes "- 2147483648 \<le> a" "a \<le> c" "c < 2147483648" "- 2147483648 \<le> b" "b \<le> d" "d < 2147483648"
  shows "Rect_pt1_pt2 \<lparr>pt_x = word_of_int a, pt_y = word_of_int b\<rparr> \<lparr>pt_x = word_of_int c, pt_y = word_of_int d\<rparr> =
         \<lparr>rect_x = word_of_int a, rect_y = word_of_int b,
          rect_width = word_of_int (c - a), rect_height = word_of_int (d - b)\<rparr>"
  using assms
  by (simp add: Rect_pt1_pt2_def smin_def smax_def word_sless_alt sint_of_int32 Let_def)

lemma regular_values:
  assumes P: "regular_parameters limg rimg numdisp mindisp blocksize"
  shows "uint (half_width blocksize) = sint blocksize div 2"
    and "half_width blocksize = word_of_int (sint blocksize div 2)"
    and "sint (numdisp + mindisp) = uint numdisp + sint mindisp"
    and "numdisp + mindisp = word_of_int (uint numdisp + sint mindisp)"
    and "sint blocksize = 2 * (sint blocksize div 2) + 1"
proof -
  have bpos: "0 \<le> sint blocksize" using P by (simp add: regular_parameters_def)
  show u: "uint (half_width blocksize) = sint blocksize div 2"
    using bpos by (rule half_width_nonneg)
  have "word_of_int (uint (half_width blocksize)) = half_width blocksize"
    by (rule word_of_int_uint)
  then show "half_width blocksize = word_of_int (sint blocksize div 2)" by (simp add: u)
  have "numdisp + mindisp = word_of_int (uint numdisp) + word_of_int (sint mindisp)"
    by simp
  then show m: "numdisp + mindisp = word_of_int (uint numdisp + sint mindisp)"
    by simp
  have "sint (word_of_int (uint numdisp + sint mindisp) :: 32 word) = uint numdisp + sint mindisp"
    using P by (intro sint_of_int32) (simp_all add: regular_parameters_def)
  then show "sint (numdisp + mindisp) = uint numdisp + sint mindisp"
    by (simp only: m)
  show "sint blocksize = 2 * (sint blocksize div 2) + 1"
    using P by (auto simp: regular_parameters_def elim: oddE)
qed

text \<open>Claim C6. For an odd block size \<open>blocksize = 2w + 1\<close> and a \<open>maxdisp = numdisp + mindisp\<close>
  that is an \<open>int\<close> (so that \<open>numdisp = maxdisp - mindisp\<close>), the search strip built at every
  eligible coordinate \<open>(x, y)\<close> has the origin \<open>(x - w - maxdisp, y - w)\<close>, the width
  \<open>blocksize + numdisp\<close> and the height \<open>blocksize\<close>.\<close>

theorem search_strip_geometry:
  assumes "0 < sint blocksize" and "odd (sint blocksize)"
    and "uint numdisp + sint mindisp < 2147483648"
    and "eligible limg numdisp mindisp blocksize x y"
  shows "sint blocksize = 2 * uint (half_width blocksize) + 1 \<and>
         uint numdisp = sint (numdisp + mindisp) - sint mindisp \<and>
         sint (rect_x (slice mindisp (half_width blocksize) (word_of_int y) (numdisp + mindisp)
                 (word_of_int x))) = x - uint (half_width blocksize) - sint (numdisp + mindisp) \<and>
         sint (rect_y (slice mindisp (half_width blocksize) (word_of_int y) (numdisp + mindisp)
                 (word_of_int x))) = y - uint (half_width blocksize) \<and>
         sint (rect_width (slice mindisp (half_width blocksize) (word_of_int y) (numdisp + mindisp)
                 (word_of_int x))) = sint blocksize + uint numdisp \<and>
         sint (rect_height (slice mindisp (half_width blocksize) (word_of_int y) (numdisp + mindisp)
                 (word_of_int x))) = sint blocksize"
proof -
  define W where "W = sint blocksize div 2"
  define B where "B = sint blocksize"
  define N where "N = uint numdisp"
  define md where "md = sint mindisp"
  define rows where "rows = sint (mat_rows limg)"
  define cols where "cols = sint (mat_cols limg)"
  have uW: "uint (half_width blocksize) = W"
    unfolding W_def using assms(1) by (intro half_width_nonneg) simp
  have wW: "half_width blocksize = word_of_int W"
    using word_of_int_uint [of "half_width blocksize"] by (simp add: uW)
  have B: "B = 2 * W + 1" using assms(2) by (auto simp: B_def W_def elim: oddE)
  have W0: "0 \<le> W" using assms(1) by (simp add: W_def)
  have N0: "0 \<le> N" by (simp add: N_def)
  have rb: "rows < 2147483648" "cols < 2147483648" "- 2147483648 \<le> md"
    using sint_bounds32 by (simp_all add: rows_def cols_def md_def)
  have mdw: "numdisp + mindisp = word_of_int (N + md)"
  proof -
    have "numdisp + mindisp = word_of_int (uint numdisp) + word_of_int (sint mindisp)" by simp
    then show ?thesis by (simp add: N_def md_def)
  qed
  have "N + md < 2147483648" using assms(3) by (simp add: N_def md_def)
  then have "sint (word_of_int (N + md) :: 32 word) = N + md"
    using N0 rb by (intro sint_of_int32) linarith+
  then have MD: "sint (numdisp + mindisp) = N + md" by (simp only: mdw)
  have e: "W \<le> y" "y \<le> rows - W - 2" "N + md + W \<le> x" "x \<le> cols + md - W - 2"
    using assms(4) by (simp_all add: eligible_def Let_def uW rows_def cols_def md_def N_def)
  define X0 where "X0 = x - W - (N + md)"
  define X2 where "X2 = x + W + 1 - md"
  define Y1 where "Y1 = y - W"
  define Y2 where "Y2 = y + W + 1"
  have c: "0 \<le> X0" "X0 \<le> X2" "X2 < 2147483648" "0 \<le> Y1" "Y1 \<le> Y2" "Y2 < 2147483648"
    "X2 - X0 = B + N" "Y2 - Y1 = B"
    using e W0 N0 B rb by (simp_all add: X0_def X2_def Y1_def Y2_def)
  have sl: "slice mindisp (half_width blocksize) (word_of_int y) (numdisp + mindisp) (word_of_int x) =
            Rect_pt1_pt2 \<lparr>pt_x = word_of_int X0, pt_y = word_of_int Y1\<rparr>
                         \<lparr>pt_x = word_of_int X2, pt_y = word_of_int Y2\<rparr>"
    by (simp add: slice_def wW mdw X0_def X2_def Y1_def Y2_def md_def)
  define SW where "SW = X2 - X0"
  define SH where "SH = Y2 - Y1"
  have d: "SW = B + N" "SH = B" "0 \<le> SW" "SW < 2147483648" "0 \<le> SH" "SH < 2147483648"
    using c W0 N0 B by (simp_all add: SW_def SH_def)
  have "Rect_pt1_pt2 \<lparr>pt_x = word_of_int X0, pt_y = word_of_int Y1\<rparr>
                     \<lparr>pt_x = word_of_int X2, pt_y = word_of_int Y2\<rparr> =
        \<lparr>rect_x = word_of_int X0, rect_y = word_of_int Y1,
         rect_width = word_of_int (X2 - X0), rect_height = word_of_int (Y2 - Y1)\<rparr>"
    using c by (intro Rect_pt1_pt2_of_int) simp_all
  then have r: "slice mindisp (half_width blocksize) (word_of_int y) (numdisp + mindisp) (word_of_int x) =
        \<lparr>rect_x = word_of_int X0, rect_y = word_of_int Y1,
         rect_width = word_of_int SW, rect_height = word_of_int SH\<rparr>"
    by (simp only: sl SW_def SH_def)
  have s: "sint (word_of_int X0 :: 32 word) = X0" "sint (word_of_int Y1 :: 32 word) = Y1"
    "sint (word_of_int SW :: 32 word) = SW" "sint (word_of_int SH :: 32 word) = SH"
    using c(1,2,3,4,5,6) d(3,4,5,6) by (simp_all add: sint_of_int32)
  have "sint blocksize = 2 * uint (half_width blocksize) + 1"
    using B by (simp add: uW B_def)
  moreover have "uint numdisp = sint (numdisp + mindisp) - sint mindisp"
    by (simp add: MD N_def md_def)
  moreover have "sint (rect_x (slice mindisp (half_width blocksize) (word_of_int y) (numdisp + mindisp)
                 (word_of_int x))) = x - uint (half_width blocksize) - sint (numdisp + mindisp)"
  proof -
    have "sint (rect_x (slice mindisp (half_width blocksize) (word_of_int y) (numdisp + mindisp)
                 (word_of_int x))) = X0"
      by (simp only: r Rect.simps s)
    also have "X0 = x - uint (half_width blocksize) - sint (numdisp + mindisp)"
      by (simp only: X0_def uW MD)
    finally show ?thesis .
  qed
  moreover have "sint (rect_y (slice mindisp (half_width blocksize) (word_of_int y) (numdisp + mindisp)
                 (word_of_int x))) = y - uint (half_width blocksize)"
  proof -
    have "sint (rect_y (slice mindisp (half_width blocksize) (word_of_int y) (numdisp + mindisp)
                 (word_of_int x))) = Y1"
      by (simp only: r Rect.simps s)
    also have "Y1 = y - uint (half_width blocksize)"
      by (simp only: Y1_def uW)
    finally show ?thesis .
  qed
  moreover have "sint (rect_width (slice mindisp (half_width blocksize) (word_of_int y) (numdisp + mindisp)
                 (word_of_int x))) = sint blocksize + uint numdisp"
  proof -
    have "sint (rect_width (slice mindisp (half_width blocksize) (word_of_int y) (numdisp + mindisp)
                 (word_of_int x))) = SW"
      by (simp only: r Rect.simps s)
    also have "SW = sint blocksize + uint numdisp"
      by (simp only: d B_def N_def)
    finally show ?thesis .
  qed
  moreover have "sint (rect_height (slice mindisp (half_width blocksize) (word_of_int y) (numdisp + mindisp)
                 (word_of_int x))) = sint blocksize"
  proof -
    have "sint (rect_height (slice mindisp (half_width blocksize) (word_of_int y) (numdisp + mindisp)
                 (word_of_int x))) = SH"
      by (simp only: r Rect.simps s)
    also have "SH = sint blocksize"
      by (simp only: d B_def)
    finally show ?thesis .
  qed
  ultimately show ?thesis by blast
qed

theorem search_strip_geometry_witness:
  "0 < sint (3 :: cint) \<and> odd (sint (3 :: cint)) \<and> uint (2 :: cuint) + sint (- 1 :: cint) < 2147483648 \<and>
   eligible (ramp_grid 5 8) 2 (- 1) 3 3 2 \<and>
   slice (- 1) (half_width 3) 2 (2 + - 1) 3 = \<lparr>rect_x = 1, rect_y = 1, rect_width = 5, rect_height = 3\<rparr> \<and>
   sint (rect_x (slice (- 1) (half_width 3) 2 (2 + - 1) 3)) = 3 - 1 - 1 \<and>
   sint (rect_width (slice (- 1) (half_width 3) 2 (2 + - 1) 3)) = 3 + 2"
proof -
  have h: "0 < sint (3 :: cint)" "odd (sint (3 :: cint))"
    "uint (2 :: cuint) + sint (- 1 :: cint) < 2147483648"
    by simp_all
  have e: "eligible (ramp_grid 5 8) 2 (- 1) 3 3 2"
    by (simp add: eligible_def Let_def ramp_grid_def half_width_def signed_divide_int_def)
  have v: "uint (half_width 3) = 1" "sint (2 + - 1 :: cint) = 1"
    by (simp_all add: half_width_def signed_divide_int_def)
  have s: "slice (- 1) (half_width 3) 2 (2 + - 1) 3 =
           \<lparr>rect_x = 1, rect_y = 1, rect_width = 5, rect_height = 3\<rparr>"
    by code_simp
  from search_strip_geometry [OF h e]
  have "sint (rect_x (slice (- 1) (half_width 3) (word_of_int 2) (2 + - 1) (word_of_int 3))) = 3 - 1 - 1"
    and "sint (rect_width (slice (- 1) (half_width 3) (word_of_int 2) (2 + - 1) (word_of_int 3))) = 3 + 2"
    by (simp_all add: v)
  then show ?thesis using h e s by simp
qed

section \<open>One cell\<close>

text \<open>On regular parameters, at an eligible coordinate, the block and the search strip lie
  inside their grids and the scorer returns one row, the score row of the specification:
  \<open>numdisp + 1\<close> scores, the one of index \<open>k\<close> for the window that starts \<open>k\<close> samples from
  the left edge of the strip (the part of claim C3 that is not floating-point
  arithmetic).\<close>

lemma cell_scores_regular:
  fixes ncc :: "uchar list list \<Rightarrow> uchar list list \<Rightarrow> 'a"
  assumes P: "regular_parameters limg rimg numdisp mindisp blocksize"
    and E: "eligible limg numdisp mindisp blocksize x y"
  shows "\<exists>feature img.
           Mat_roi limg (block blocksize (half_width blocksize) (word_of_int y) (word_of_int x)) = Inr feature \<and>
           Mat_roi rimg (slice mindisp (half_width blocksize) (word_of_int y) (numdisp + mindisp)
                           (word_of_int x)) = Inr img \<and>
           matchTemplate ncc img feature =
             Inr [score_row ncc limg rimg numdisp mindisp blocksize x y]"
proof -
  define W where "W = sint blocksize div 2"
  define B where "B = sint blocksize"
  define N where "N = uint numdisp"
  define md where "md = sint mindisp"
  define rows where "rows = sint (mat_rows limg)"
  define cols where "cols = sint (mat_cols limg)"
  note rv = regular_values [OF P, folded W_def B_def N_def md_def]
  have p: "0 < rows" "0 < cols" "0 < B" "W < rows" "W < cols + md" "md \<le> 1"
    "0 \<le> N + md" "N + md < 2147483648" "mat_rows rimg = mat_rows limg" "mat_cols rimg = mat_cols limg"
    using P by (simp_all add: regular_parameters_def W_def B_def N_def md_def rows_def cols_def)
  have B: "B = 2 * W + 1" using rv(5) by simp
  have W0: "0 \<le> W" using p(3) B by simp
  have N0: "0 \<le> N" by (simp add: N_def)
  have e: "W \<le> y" "y \<le> rows - W - 2" "N + md + W \<le> x" "x \<le> cols + md - W - 2"
    using E by (simp_all add: eligible_def Let_def rv(1) rows_def cols_def md_def N_def)
  have rb: "rows < 2147483648" "cols < 2147483648" "- 2147483648 \<le> md"
    using sint_bounds32 by (simp_all add: rows_def cols_def md_def)
  \<comment> \<open>the corners of the block and of the slice\<close>
  define X1 where "X1 = x - W"
  define Y1 where "Y1 = y - W"
  define X0 where "X0 = x - W - (N + md)"
  define X2 where "X2 = x + W + 1 - md"
  define Y2 where "Y2 = y + W + 1"
  define BN where "BN = B + N"
  have c: "0 \<le> X0" "X0 \<le> X1" "X1 + B \<le> cols" "0 \<le> Y1" "Y1 + B \<le> rows"
    "X0 \<le> X2" "X2 \<le> cols" "Y1 \<le> Y2" "Y2 \<le> rows" "X2 - X0 = BN" "Y2 - Y1 = B"
    "X0 + BN \<le> cols" "0 \<le> BN" "B \<le> BN"
    using p e W0 N0 B by (simp_all add: X1_def Y1_def X0_def X2_def Y2_def BN_def)
  have r: "X0 < 2147483648" "X1 < 2147483648" "Y1 < 2147483648" "X2 < 2147483648"
    "Y2 < 2147483648" "BN < 2147483648" "B < 2147483648"
    "- 2147483648 \<le> X0" "- 2147483648 \<le> X1" "- 2147483648 \<le> Y1" "- 2147483648 \<le> X2"
    "- 2147483648 \<le> Y2" "- 2147483648 \<le> BN" "- 2147483648 \<le> B"
    using c rb p(1,2,3) by simp_all
  have bx: "word_of_int x - half_width blocksize = (word_of_int X1 :: 32 word)"
    and "by": "word_of_int y - half_width blocksize = (word_of_int Y1 :: 32 word)"
    by (simp_all add: rv(2) X1_def Y1_def)
  have sx: "word_of_int x - half_width blocksize - (numdisp + mindisp) = (word_of_int X0 :: 32 word)"
    by (simp add: rv(2,4) X0_def)
  have sx': "word_of_int X1 - (numdisp + mindisp) = (word_of_int X0 :: 32 word)"
    using sx by (simp only: bx)
  have sx2: "word_of_int x + half_width blocksize + 1 - mindisp = (word_of_int X2 :: 32 word)"
    by (simp add: rv(2) md_def X2_def)
  have sy2: "word_of_int y + half_width blocksize + 1 = (word_of_int Y2 :: 32 word)"
    by (simp add: rv(2) Y2_def)
  have sB: "sint blocksize = B" by (simp add: B_def)
  have block: "block blocksize (half_width blocksize) (word_of_int y) (word_of_int x) =
               \<lparr>rect_x = word_of_int X1, rect_y = word_of_int Y1,
                rect_width = blocksize, rect_height = blocksize\<rparr>"
    by (simp add: block_def Rect_org_sz_def bx "by")
  have block_fits: "roi_fits limg \<lparr>rect_x = word_of_int X1, rect_y = word_of_int Y1,
                      rect_width = blocksize, rect_height = blocksize\<rparr>"
    using c r p(3)
    by (simp add: roi_fits_def sint_of_int32 sB rows_def [symmetric] cols_def [symmetric])
  have slice: "slice mindisp (half_width blocksize) (word_of_int y) (numdisp + mindisp) (word_of_int x) =
               \<lparr>rect_x = word_of_int X0, rect_y = word_of_int Y1,
                rect_width = word_of_int BN, rect_height = word_of_int B\<rparr>"
    using Rect_pt1_pt2_of_int [of X0 X2 Y1 Y2] c r by (simp add: slice_def bx "by" sx' sx2 sy2)
  have slice_fits: "roi_fits rimg \<lparr>rect_x = word_of_int X0, rect_y = word_of_int Y1,
                      rect_width = word_of_int BN, rect_height = word_of_int B\<rparr>"
    using c r p(3,9,10)
    by (simp add: roi_fits_def sint_of_int32 rows_def [symmetric] cols_def [symmetric])
  \<comment> \<open>the two views and the scores\<close>
  define feature where "feature = \<lparr>mat_rows = blocksize, mat_cols = blocksize,
      mat_at = (\<lambda>i j. mat_at limg (nat Y1 + i) (nat X1 + j))\<rparr>"
  define img where "img = \<lparr>mat_rows = (word_of_int B :: 32 word), mat_cols = (word_of_int BN :: 32 word),
      mat_at = (\<lambda>i j. mat_at rimg (nat Y1 + i) (nat X0 + j))\<rparr>"
  have feature: "Mat_roi limg (block blocksize (half_width blocksize) (word_of_int y) (word_of_int x)) =
                 Inr feature"
    using block_fits c r by (simp add: block Mat_roi_def feature_def sint_of_int32)
  have img: "Mat_roi rimg (slice mindisp (half_width blocksize) (word_of_int y) (numdisp + mindisp)
                             (word_of_int x)) = Inr img"
    using slice_fits c r by (simp add: slice Mat_roi_def img_def sint_of_int32)
  have dims: "sint (mat_rows img) = B" "sint (mat_cols img) = BN"
    "sint (mat_rows feature) = B" "sint (mat_cols feature) = B"
    using r by (simp_all add: img_def feature_def sint_of_int32 sB)
  have win_img: "window img 0 k (nat B) (nat B) = window rimg (nat Y1) (nat X0 + k) (nat B) (nat B)" for k
    by (simp add: window_def img_def add.assoc)
  have win_feature: "window feature 0 0 (nat B) (nat B) = window limg (nat Y1) (nat X1) (nat B) (nat B)"
    by (simp add: window_def feature_def)
  have nN: "nat (BN - B + 1) = unat numdisp + 1"
    by (simp add: BN_def N_def nat_add_distrib)
  have row: "score_row ncc limg rimg numdisp mindisp blocksize x y =
             map (\<lambda>k. ncc (window img 0 k (nat B) (nat B)) (window feature 0 0 (nat B) (nat B)))
                 [0..<unat numdisp + 1]"
    by (simp add: score_row_def Let_def rv(1,3) win_img win_feature sB
        X1_def Y1_def X0_def W_def [symmetric] N_def [symmetric] md_def [symmetric])
  have "matchTemplate ncc img feature = Inr [score_row ncc limg rimg numdisp mindisp blocksize x y]"
    using p(3) c by (simp add: matchTemplate_def Let_def dims row nN)
  with feature img show ?thesis by blast
qed

lemma score_row_length:
  "length (score_row ncc limg rimg numdisp mindisp blocksize x y) = unat numdisp + 1"
  by (simp add: score_row_def Let_def)

lemma rectangles_fit_regular:
  assumes P: "regular_parameters limg rimg numdisp mindisp blocksize"
    and E: "eligible limg numdisp mindisp blocksize x y"
  shows "roi_fits limg (block blocksize (half_width blocksize) (word_of_int y) (word_of_int x)) \<and>
         roi_fits rimg (slice mindisp (half_width blocksize) (word_of_int y) (numdisp + mindisp)
                          (word_of_int x))"
proof -
  from cell_scores_regular [OF P E, of "\<lambda>a b. ()"] obtain feature img where
    "Mat_roi limg (block blocksize (half_width blocksize) (word_of_int y) (word_of_int x)) = Inr feature"
    "Mat_roi rimg (slice mindisp (half_width blocksize) (word_of_int y) (numdisp + mindisp)
                     (word_of_int x)) = Inr img"
    by blast
  then show ?thesis by (simp add: Mat_roi_def split: if_splits)
qed

lemma dispmap_cell_on_eligible:
  fixes ncc :: "uchar list list \<Rightarrow> uchar list list \<Rightarrow> 'a::linorder"
  assumes P: "regular_parameters limg rimg numdisp mindisp blocksize"
    and E: "eligible limg numdisp mindisp blocksize x y"
    and D: "mat_rows d = mat_rows limg" "mat_cols d = mat_cols limg"
  shows "dispmap_cell ncc limg rimg mindisp blocksize (half_width blocksize) (word_of_int y)
           (numdisp + mindisp) (word_of_int x) d =
         Inr (store d y x
               (ucast (of_nat (selectBest (score_row ncc limg rimg numdisp mindisp blocksize x y)) :: cint)))"
proof -
  from cell_scores_regular [OF P E, of ncc] obtain feature img where
    f: "Mat_roi limg (block blocksize (half_width blocksize) (word_of_int y) (word_of_int x)) = Inr feature"
    and i: "Mat_roi rimg (slice mindisp (half_width blocksize) (word_of_int y) (numdisp + mindisp)
                           (word_of_int x)) = Inr img"
    and m: "matchTemplate ncc img feature = Inr [score_row ncc limg rimg numdisp mindisp blocksize x y]"
    by blast
  have ne: "score_row ncc limg rimg numdisp mindisp blocksize x y \<noteq> []"
    using score_row_length [of ncc limg rimg numdisp mindisp blocksize x y] by auto
  note rv = regular_values [OF P]
  have "0 \<le> sint blocksize div 2" "0 \<le> uint numdisp + sint mindisp" "sint mindisp \<le> 1"
    using P by (simp_all add: regular_parameters_def)
  moreover have "sint blocksize div 2 \<le> y" "y \<le> sint (mat_rows limg) - sint blocksize div 2 - 2"
    "uint numdisp + sint mindisp + sint blocksize div 2 \<le> x"
    "x \<le> sint (mat_cols limg) + sint mindisp - sint blocksize div 2 - 2"
    using E by (simp_all add: eligible_def Let_def rv(1,3))
  ultimately have xy: "0 \<le> y" "y < sint (mat_rows limg)" "0 \<le> x" "x < sint (mat_cols limg)"
    by linarith+
  have "sint (word_of_int y :: 32 word) = y" "sint (word_of_int x :: 32 word) = x"
    using xy sint_bounds32 [of "mat_rows limg"] sint_bounds32 [of "mat_cols limg"]
    by (simp_all add: sint_of_int32)
  then have set: "Mat_set d (word_of_int y) (word_of_int x) v = Inr (store d y x v)" for v
    using xy D by (simp add: Mat_set_def store_def)
  show ?thesis
    by (simp add: dispmap_cell_def f i m minMaxLoc_single_row [OF ne] set)
qed

text \<open>With identical grids and \<open>mindisp = 0\<close>, the window of index \<open>numdisp\<close> is the block
  itself (the part of claim C8 that is not floating-point arithmetic).\<close>

lemma self_match_offset:
  assumes P: "regular_parameters limg limg numdisp 0 blocksize"
    and E: "eligible limg numdisp 0 blocksize x y"
  shows "score_row ncc limg limg numdisp 0 blocksize x y ! unat numdisp =
         ncc (window limg (nat (y - uint (half_width blocksize))) (nat (x - uint (half_width blocksize)))
                (nat (sint blocksize)) (nat (sint blocksize)))
             (window limg (nat (y - uint (half_width blocksize))) (nat (x - uint (half_width blocksize)))
                (nat (sint blocksize)) (nat (sint blocksize)))"
proof -
  note rv = regular_values [OF P]
  have md: "sint numdisp = uint numdisp" using rv(3) by simp
  have "uint numdisp + uint (half_width blocksize) \<le> x"
    using E by (simp add: eligible_def Let_def md)
  then have "nat (x - uint (half_width blocksize) - uint numdisp) + nat (uint numdisp) =
             nat (x - uint (half_width blocksize))"
    using uint_ge_0 [of numdisp] by linarith
  then have "nat (x - uint (half_width blocksize) - uint numdisp) + unat numdisp =
             nat (x - uint (half_width blocksize))"
    by (simp only: unat_eq_nat_uint)
  moreover have "[0..<unat numdisp + 1] ! unat numdisp = unat numdisp"
    using nth_upt [of 0 "unat numdisp" "unat numdisp + 1"] by simp
  ultimately show ?thesis
    by (simp add: score_row_def Let_def md del: upt_Suc)
qed


lemma dispmap_cell_stores_low_byte:
  assumes "dispmap_cell ncc limg rimg mindisp blocksize w y maxdisp x d = Inr d'"
  shows "\<exists>feature img nccs.
           Mat_roi limg (block blocksize w y x) = Inr feature \<and>
           Mat_roi rimg (slice mindisp w y maxdisp x) = Inr img \<and>
           matchTemplate ncc img feature = Inr nccs \<and>
           unat (mat_at d' (nat (sint y)) (nat (sint x))) = unat (pt_x (minMaxLoc nccs)) mod 256"
proof -
  from assms obtain feature img nccs where
    f: "Mat_roi limg (block blocksize w y x) = Inr feature"
    and i: "Mat_roi rimg (slice mindisp w y maxdisp x) = Inr img"
    and m: "matchTemplate ncc img feature = Inr nccs"
    and s: "Mat_set d y x (ucast (pt_x (minMaxLoc nccs))) = Inr d'"
    by (auto simp: dispmap_cell_def split: sum.splits)
  have "mat_at d' (nat (sint y)) (nat (sint x)) = ucast (pt_x (minMaxLoc nccs))"
    using s by (auto simp: Mat_set_def split: if_splits)
  then have "unat (mat_at d' (nat (sint y)) (nat (sint x))) = unat (pt_x (minMaxLoc nccs)) mod 256"
    by (simp only: unat_ucast_32_8)
  with f i m show ?thesis by blast
qed





section \<open>The engine on regular parameters\<close>

lemma regular_ranges:
  assumes P: "regular_parameters limg rimg numdisp mindisp blocksize"
  shows "word_range (half_width blocksize) (mat_rows limg - half_width blocksize - 1) =
         map word_of_int [uint (half_width blocksize)..sint (mat_rows limg) - uint (half_width blocksize) - 2]"
    and "word_range (numdisp + mindisp + half_width blocksize)
                    (mat_cols limg + mindisp - half_width blocksize - 1) =
         map word_of_int [uint numdisp + sint mindisp + uint (half_width blocksize)..
                          sint (mat_cols limg) + sint mindisp - uint (half_width blocksize) - 2]"
proof -
  define W where "W = sint blocksize div 2"
  define N where "N = uint numdisp"
  define md where "md = sint mindisp"
  define rows where "rows = sint (mat_rows limg)"
  define cols where "cols = sint (mat_cols limg)"
  note rv = regular_values [OF P, folded W_def N_def md_def]
  have p: "0 < sint blocksize" "W < rows" "W < cols + md" "md \<le> 1" "0 \<le> N + md" "N + md < 2147483648"
    using P by (simp_all add: regular_parameters_def W_def N_def md_def rows_def cols_def)
  have W0: "0 \<le> W" using p(1) by (simp add: W_def)
  have rb: "rows < 2147483648" "cols < 2147483648"
    using sint_bounds32 by (simp_all add: rows_def cols_def)
  have yb: "mat_rows limg - half_width blocksize - 1 = (word_of_int (rows - W - 1) :: 32 word)"
    by (simp add: rv(2) rows_def)
  have x0: "numdisp + mindisp + half_width blocksize = (word_of_int (N + md + W) :: 32 word)"
    by (simp add: rv(2,4))
  have xb: "mat_cols limg + mindisp - half_width blocksize - 1 = (word_of_int (cols + md - W - 1) :: 32 word)"
    by (simp add: rv(2) cols_def md_def)
  have "sint (mat_rows limg) - uint (half_width blocksize) - 2 = rows - W - 1 - 1"
    by (simp add: rv(1) rows_def)
  then have e1: "[uint (half_width blocksize)..sint (mat_rows limg) - uint (half_width blocksize) - 2] =
            [W..rows - W - 1 - 1]"
    by (simp only: rv(1))
  have "sint (mat_cols limg) + sint mindisp - uint (half_width blocksize) - 2 = cols + md - W - 1 - 1"
    by (simp add: rv(1) cols_def md_def)
  then have e2: "[uint numdisp + sint mindisp + uint (half_width blocksize)..
             sint (mat_cols limg) + sint mindisp - uint (half_width blocksize) - 2] =
            [N + md + W..cols + md - W - 1 - 1]"
    by (simp only: rv(1) N_def md_def)
  have "word_range (half_width blocksize) (mat_rows limg - half_width blocksize - 1) =
        word_range (half_width blocksize) (word_of_int (rows - W - 1))"
    by (simp only: yb)
  also have "\<dots> = word_range (word_of_int W) (word_of_int (rows - W - 1))"
    by (simp only: rv(2))
  also have "\<dots> = map word_of_int [W..rows - W - 1 - 1]"
    using p W0 rb by (intro word_range_of_int) simp_all
  also have "\<dots> = map word_of_int
      [uint (half_width blocksize)..sint (mat_rows limg) - uint (half_width blocksize) - 2]"
    by (simp only: e1)
  finally show "word_range (half_width blocksize) (mat_rows limg - half_width blocksize - 1) =
         map word_of_int [uint (half_width blocksize)..sint (mat_rows limg) - uint (half_width blocksize) - 2]" .
  have "word_range (numdisp + mindisp + half_width blocksize)
                    (mat_cols limg + mindisp - half_width blocksize - 1) =
        word_range (word_of_int (N + md + W)) (word_of_int (cols + md - W - 1))"
    by (simp only: x0 xb)
  also have "\<dots> = map word_of_int [N + md + W..cols + md - W - 1 - 1]"
    using p W0 rb by (intro word_range_of_int) simp_all
  also have "\<dots> = map word_of_int [uint numdisp + sint mindisp + uint (half_width blocksize)..
                          sint (mat_cols limg) + sint mindisp - uint (half_width blocksize) - 2]"
    by (simp only: e2)
  finally show "word_range (numdisp + mindisp + half_width blocksize)
                    (mat_cols limg + mindisp - half_width blocksize - 1) =
         map word_of_int [uint numdisp + sint mindisp + uint (half_width blocksize)..
                          sint (mat_cols limg) + sint mindisp - uint (half_width blocksize) - 2]" .
qed

lemma compute_dispmap_regular:
  fixes ncc :: "uchar list list \<Rightarrow> uchar list list \<Rightarrow> 'a::linorder"
  assumes P: "regular_parameters limg rimg numdisp mindisp blocksize"
  shows "compute_dispmap ncc (limg, rimg) numdisp mindisp blocksize alloc =
         Inr (fold (\<lambda>(y, x) dispmap. store dispmap y x
                      (ucast (of_nat (selectBest
                         (score_row ncc limg rimg numdisp mindisp blocksize x y)) :: cint)))
                (eligible_coords limg numdisp mindisp blocksize)
                \<lparr>mat_rows = mat_rows limg, mat_cols = mat_cols limg, mat_at = alloc\<rparr>)"
proof -
  let ?ys = "[uint (half_width blocksize)..sint (mat_rows limg) - uint (half_width blocksize) - 2]"
  let ?xs = "[uint numdisp + sint mindisp + uint (half_width blocksize)..
              sint (mat_cols limg) + sint mindisp - uint (half_width blocksize) - 2]"
  let ?cell = "\<lambda>c. (case map_prod word_of_int word_of_int c of
                       (y, x) \<Rightarrow> dispmap_cell ncc limg rimg mindisp blocksize (half_width blocksize) y
                                   (numdisp + mindisp) x)"
  let ?g = "\<lambda>(y, x) dispmap. store dispmap y x
              (ucast (of_nat (selectBest (score_row ncc limg rimg numdisp mindisp blocksize x y)) :: cint))"
  let ?I = "\<lambda>d. mat_rows d = mat_rows limg \<and> mat_cols d = mat_cols limg"
  let ?init = "\<lparr>mat_rows = mat_rows limg, mat_cols = mat_cols limg, mat_at = alloc\<rparr>"
  have step: "?cell c d = Inr (?g c d) \<and> ?I (?g c d)" if "c \<in> set (row_major ?ys ?xs)" "?I d" for c d
  proof -
    obtain y x where c: "c = (y, x)" by (cases c)
    have "eligible limg numdisp mindisp blocksize x y"
      using that(1) by (simp add: c set_row_major eligible_def Let_def)
    from dispmap_cell_on_eligible [OF P this, where ncc = ncc and d = d] that(2) show ?thesis
      by (simp add: c store_def)
  qed
  have "compute_dispmap ncc (limg, rimg) numdisp mindisp blocksize alloc =
        visit ?cell (row_major ?ys ?xs) ?init"
    by (simp add: compute_dispmap_visit regular_ranges [OF P] row_major_map visit_map)
  also have "\<dots> = Inr (fold ?g (row_major ?ys ?xs) ?init)"
    by (rule visit_all_Inr [where I = ?I]) (use step in simp_all)
  finally show ?thesis by (simp add: eligible_coords_def Let_def)
qed

lemma empty_range_regular:
  fixes ncc :: "uchar list list \<Rightarrow> uchar list list \<Rightarrow> 'a::linorder"
  assumes "regular_parameters limg rimg numdisp mindisp blocksize"
    and "eligible_coords limg numdisp mindisp blocksize = []"
  shows "compute_dispmap ncc (limg, rimg) numdisp mindisp blocksize alloc =
         Inr \<lparr>mat_rows = mat_rows limg, mat_cols = mat_cols limg, mat_at = alloc\<rparr>"
  using compute_dispmap_regular [OF assms(1), of ncc alloc] by (simp add: assms(2))

lemma set_eligible_coords:
  "(y, x) \<in> set (eligible_coords limg numdisp mindisp blocksize) \<longleftrightarrow>
   eligible limg numdisp mindisp blocksize x y"
  by (auto simp: eligible_coords_def eligible_def Let_def set_row_major)

lemma fold_store_at:
  assumes "\<And>y x. (y, x) \<in> set cs \<Longrightarrow> 0 \<le> y \<and> 0 \<le> x"
  shows "mat_at (fold (\<lambda>(y, x) d. store d y x (v x y)) cs d) i j =
         (if (int i, int j) \<in> set cs then v (int j) (int i) else mat_at d i j)"
  using assms
proof (induction cs arbitrary: d)
  case Nil
  then show ?case by simp
next
  case (Cons c cs)
  obtain y x where c: "c = (y, x)" by (cases c)
  have nn: "0 \<le> y" "0 \<le> x" using Cons.prems [of y x] by (simp_all add: c)
  have hit: "nat y = i \<and> nat x = j \<longleftrightarrow> (int i, int j) = (y, x)"
    using nn by auto
  have "mat_at (fold (\<lambda>(y, x) d. store d y x (v x y)) cs (store d y x (v x y))) i j =
        (if (int i, int j) \<in> set cs then v (int j) (int i) else mat_at (store d y x (v x y)) i j)"
    by (intro Cons.IH) (use Cons.prems in auto)
  moreover have "mat_at (store d y x (v x y)) i j =
        (if (int i, int j) = (y, x) then v (int j) (int i) else mat_at d i j)"
    using hit by (auto simp: store_def)
  ultimately show ?case by (auto simp: c)
qed

lemma fold_store_dims:
  "mat_rows (fold (\<lambda>(y, x) d. store d y x (v x y)) cs d) = mat_rows d \<and>
   mat_cols (fold (\<lambda>(y, x) d. store d y x (v x y)) cs d) = mat_cols d"
  by (induction cs arbitrary: d) (auto simp: store_def)

lemma compute_dispmap_regular_cells:
  fixes ncc :: "uchar list list \<Rightarrow> uchar list list \<Rightarrow> 'a::linorder"
  assumes P: "regular_parameters limg rimg numdisp mindisp blocksize"
  shows "\<exists>dispmap. compute_dispmap ncc (limg, rimg) numdisp mindisp blocksize alloc = Inr dispmap \<and>
           mat_rows dispmap = mat_rows limg \<and> mat_cols dispmap = mat_cols limg \<and>
           (\<forall>i j. mat_at dispmap i j =
              (if eligible limg numdisp mindisp blocksize (int j) (int i)
               then ucast (of_nat (selectBest
                      (score_row ncc limg rimg numdisp mindisp blocksize (int j) (int i))) :: cint)
               else alloc i j))"
proof -
  let ?v = "\<lambda>x y. (ucast (of_nat (selectBest
                      (score_row ncc limg rimg numdisp mindisp blocksize x y)) :: cint) :: uchar)"
  let ?init = "\<lparr>mat_rows = mat_rows limg, mat_cols = mat_cols limg, mat_at = alloc\<rparr>"
  let ?cs = "eligible_coords limg numdisp mindisp blocksize"
  let ?g = "fold (\<lambda>(y, x) d. store d y x (?v x y)) ?cs ?init"
  have nn: "0 \<le> y \<and> 0 \<le> x" if "(y, x) \<in> set ?cs" for y x
  proof -
    have e: "eligible limg numdisp mindisp blocksize x y" using that by (simp add: set_eligible_coords)
    note rv = regular_values [OF P]
    have "0 \<le> sint blocksize div 2" "0 \<le> uint numdisp + sint mindisp"
      using P by (simp_all add: regular_parameters_def)
    moreover have "sint blocksize div 2 \<le> y"
      "uint numdisp + sint mindisp + sint blocksize div 2 \<le> x"
      using e by (simp_all add: eligible_def Let_def rv(1,3))
    ultimately show ?thesis by linarith
  qed
  have "compute_dispmap ncc (limg, rimg) numdisp mindisp blocksize alloc = Inr ?g"
    by (rule compute_dispmap_regular [OF P])
  moreover have "mat_rows ?g = mat_rows limg \<and> mat_cols ?g = mat_cols limg"
    using fold_store_dims [of ?v ?cs ?init] by simp
  moreover have "mat_at ?g i j =
              (if eligible limg numdisp mindisp blocksize (int j) (int i) then ?v (int j) (int i)
               else alloc i j)" for i j
    using fold_store_at [of ?cs ?v ?init i j] nn by (simp add: set_eligible_coords)
  ultimately show ?thesis by blast
qed

lemma regular_ramp: "regular_parameters (ramp_grid 3 4) (ramp_grid 3 4) 1 0 1"
  by (simp add: regular_parameters_def ramp_grid_def)

lemma eligible_coords_ramp:
  "eligible_coords (ramp_grid 3 4) 1 0 1 = [(0, 1), (0, 2), (1, 1), (1, 2)]"
  by code_simp

text \<open>Claim C1, as amended. For grids of equal, non-zero dimensions and regular parameters
  (an odd block size of at least 1 with \<open>w < rows\<close> and \<open>w < cols + mindisp\<close>, \<open>mindisp\<close> at
  most 1, \<open>maxdisp = numdisp + mindisp\<close> between 0 and the greatest \<open>int\<close>), the engine
  returns the grid obtained from the allocated one by visiting exactly the coordinates
  \<open>y\<close> in \<open>[w, rows - w - 2]\<close> and \<open>x\<close> in \<open>[maxdisp + w, cols + mindisp - w - 2]\<close> in
  row-major order and storing, at each one, the index selected from the score row of this
  coordinate, narrowed to the 8 bits of the cell.\<close>

theorem compute_dispmap_visits_eligible_coords:
  fixes ncc :: "uchar list list \<Rightarrow> uchar list list \<Rightarrow> 'a::linorder"
  assumes "regular_parameters limg rimg numdisp mindisp blocksize"
  shows "compute_dispmap ncc (limg, rimg) numdisp mindisp blocksize alloc =
         Inr (fold (\<lambda>(y, x) dispmap. store dispmap y x
                      (ucast (of_nat (selectBest
                         (score_row ncc limg rimg numdisp mindisp blocksize x y)) :: cint)))
                (eligible_coords limg numdisp mindisp blocksize)
                \<lparr>mat_rows = mat_rows limg, mat_cols = mat_cols limg, mat_at = alloc\<rparr>)"
  using assms by (rule compute_dispmap_regular)

theorem compute_dispmap_visits_eligible_coords_witness:
  "regular_parameters (ramp_grid 3 4) (ramp_grid 3 4) 1 0 1 \<and>
   eligible_coords (ramp_grid 3 4) 1 0 1 = [(0, 1), (0, 2), (1, 1), (1, 2)] \<and>
   (\<exists>dispmap. compute_dispmap equal_score (ramp_grid 3 4, ramp_grid 3 4) 1 0 1 (\<lambda>i j. 7) = Inr dispmap \<and>
      window dispmap 0 0 3 4 = [[7, 1, 1, 7], [7, 1, 1, 7], [7, 7, 7, 7]])"
proof -
  let ?g = "fold (\<lambda>(y, x) dispmap. store dispmap y x
                      (ucast (of_nat (selectBest
                         (score_row equal_score (ramp_grid 3 4) (ramp_grid 3 4) 1 0 1 x y)) :: cint)))
                (eligible_coords (ramp_grid 3 4) 1 0 1)
                \<lparr>mat_rows = mat_rows (ramp_grid 3 4), mat_cols = mat_cols (ramp_grid 3 4), mat_at = (\<lambda>i j. 7)\<rparr>"
  have "compute_dispmap equal_score (ramp_grid 3 4, ramp_grid 3 4) 1 0 1 (\<lambda>i j. 7) = Inr ?g"
    using regular_ramp by (rule compute_dispmap_visits_eligible_coords)
  moreover have "window ?g 0 0 3 4 = [[7, 1, 1, 7], [7, 1, 1, 7], [7, 7, 7, 7]]"
    by code_simp
  ultimately show ?thesis using regular_ramp eligible_coords_ramp by blast
qed

text \<open>Claim C1 as stated fails: with \<open>numdisp = 300\<close> the index selected at the eligible
  coordinate \<open>(300, 0)\<close> is 300, and the cell holds 44.\<close>

lemma regular_spike_300:
  "regular_parameters (spike_grid 2 302 300) (spike_grid 2 302 300) 300 0 1"
  by (simp add: regular_parameters_def spike_grid_def)

lemma eligible_spike_300: "eligible (spike_grid 2 302 300) 300 0 1 300 0"
  by (simp add: eligible_def Let_def spike_grid_def half_width_def signed_divide_int_def)

lemma selected_spike_300:
  "selectBest (score_row equal_score (spike_grid 2 302 300) (spike_grid 2 302 300) 300 0 1 300 0) = 300"
  by code_simp

theorem raw_index_not_stored_counterexample:
  "regular_parameters (spike_grid 2 302 300) (spike_grid 2 302 300) 300 0 1 \<and>
   eligible (spike_grid 2 302 300) 300 0 1 300 0 \<and>
   selectBest (score_row equal_score (spike_grid 2 302 300) (spike_grid 2 302 300) 300 0 1 300 0) = 300 \<and>
   (\<exists>dispmap. compute_dispmap equal_score (spike_grid 2 302 300, spike_grid 2 302 300) 300 0 1
                 (\<lambda>i j. 9) = Inr dispmap \<and>
      unat (mat_at dispmap 0 300) = 44)"
proof -
  from compute_dispmap_regular_cells [OF regular_spike_300, of equal_score "\<lambda>i j. 9"]
  obtain dispmap where d:
    "compute_dispmap equal_score (spike_grid 2 302 300, spike_grid 2 302 300) 300 0 1 (\<lambda>i j. 9) = Inr dispmap"
    and cells: "\<And>i j. mat_at dispmap i j =
       (if eligible (spike_grid 2 302 300) 300 0 1 (int j) (int i)
        then ucast (of_nat (selectBest (score_row equal_score (spike_grid 2 302 300)
               (spike_grid 2 302 300) 300 0 1 (int j) (int i))) :: cint)
        else 9)"
    by blast
  have "mat_at dispmap 0 300 = ucast (of_nat 300 :: cint)"
    using cells [of 0 300] eligible_spike_300 selected_spike_300 by simp
  then have "unat (mat_at dispmap 0 300) = 44"
    by (simp only: unat_stored_index) simp
  with d show ?thesis using regular_spike_300 eligible_spike_300 selected_spike_300 by blast
qed

text \<open>Claim C10. On regular parameters, the value of the output cell at every eligible
  coordinate is the selected index modulo 256, and it is the selected index itself exactly
  when this index is at most 255. No bound on \<open>numdisp\<close> is among the preconditions: the
  witness runs the engine with \<open>numdisp = 256\<close>, where the index 256 is stored as 0.\<close>

theorem stored_index_modulo_256:
  fixes ncc :: "uchar list list \<Rightarrow> uchar list list \<Rightarrow> 'a::linorder"
  assumes "regular_parameters limg rimg numdisp mindisp blocksize"
    and "eligible limg numdisp mindisp blocksize x y"
  shows "\<exists>dispmap. compute_dispmap ncc (limg, rimg) numdisp mindisp blocksize alloc = Inr dispmap \<and>
           unat (mat_at dispmap (nat y) (nat x)) =
             selectBest (score_row ncc limg rimg numdisp mindisp blocksize x y) mod 256 \<and>
           (unat (mat_at dispmap (nat y) (nat x)) =
              selectBest (score_row ncc limg rimg numdisp mindisp blocksize x y) \<longleftrightarrow>
            selectBest (score_row ncc limg rimg numdisp mindisp blocksize x y) \<le> 255)"
proof -
  let ?k = "selectBest (score_row ncc limg rimg numdisp mindisp blocksize x y)"
  from compute_dispmap_regular_cells [OF assms(1), of ncc alloc]
  obtain dispmap where d: "compute_dispmap ncc (limg, rimg) numdisp mindisp blocksize alloc = Inr dispmap"
    and cells: "\<And>i j. mat_at dispmap i j =
              (if eligible limg numdisp mindisp blocksize (int j) (int i)
               then ucast (of_nat (selectBest
                      (score_row ncc limg rimg numdisp mindisp blocksize (int j) (int i))) :: cint)
               else alloc i j)"
    by blast
  have "0 \<le> sint blocksize div 2" "0 \<le> uint numdisp + sint mindisp"
    using assms(1) by (simp_all add: regular_parameters_def)
  moreover have "sint blocksize div 2 \<le> y" "uint numdisp + sint mindisp + sint blocksize div 2 \<le> x"
    using assms(2) by (simp_all add: eligible_def Let_def regular_values(1,3) [OF assms(1)])
  ultimately have nn: "0 \<le> y" "0 \<le> x" by linarith+
  have "mat_at dispmap (nat y) (nat x) = ucast (of_nat ?k :: cint)"
    using cells [of "nat y" "nat x"] nn assms(2) by simp
  then have m: "unat (mat_at dispmap (nat y) (nat x)) = ?k mod 256"
    by (simp only: unat_stored_index)
  have "k mod 256 = k \<longleftrightarrow> k \<le> 255" for k :: nat
    by (simp add: mod_eq_self_iff_div_eq_0 div_eq_0_iff) arith
  then have "?k mod 256 = ?k \<longleftrightarrow> ?k \<le> 255" .
  with d m show ?thesis by (intro exI [of _ dispmap]) simp
qed

lemma regular_spike_256:
  "regular_parameters (spike_grid 2 258 256) (spike_grid 2 258 256) 256 0 1"
  by (simp add: regular_parameters_def spike_grid_def)

lemma eligible_spike_256: "eligible (spike_grid 2 258 256) 256 0 1 256 0"
  by (simp add: eligible_def Let_def spike_grid_def half_width_def signed_divide_int_def)

lemma selected_spike_256:
  "selectBest (score_row equal_score (spike_grid 2 258 256) (spike_grid 2 258 256) 256 0 1 256 0) = 256"
  by code_simp

theorem stored_index_modulo_256_witness:
  "regular_parameters (spike_grid 2 258 256) (spike_grid 2 258 256) 256 0 1 \<and>
   eligible (spike_grid 2 258 256) 256 0 1 256 0 \<and>
   selectBest (score_row equal_score (spike_grid 2 258 256) (spike_grid 2 258 256) 256 0 1 256 0) = 256 \<and>
   (\<exists>dispmap. compute_dispmap equal_score (spike_grid 2 258 256, spike_grid 2 258 256) 256 0 1
                 (\<lambda>i j. 9) = Inr dispmap \<and>
      unat (mat_at dispmap 0 256) = 0)"
proof -
  from stored_index_modulo_256 [OF regular_spike_256 eligible_spike_256, of equal_score "\<lambda>i j. 9"]
  obtain dispmap where
    "compute_dispmap equal_score (spike_grid 2 258 256, spike_grid 2 258 256) 256 0 1 (\<lambda>i j. 9) = Inr dispmap"
    "unat (mat_at dispmap (nat 0) (nat 256)) =
       selectBest (score_row equal_score (spike_grid 2 258 256) (spike_grid 2 258 256) 256 0 1 256 0) mod 256"
    by blast
  then have "compute_dispmap equal_score (spike_grid 2 258 256, spike_grid 2 258 256) 256 0 1 (\<lambda>i j. 9) = Inr dispmap \<and>
      unat (mat_at dispmap 0 256) = 0"
    by (simp add: selected_spike_256)
  then show ?thesis using regular_spike_256 eligible_spike_256 selected_spike_256 by blast
qed

section \<open>The cells outside the eligible range\<close>




section \<open>Parameters on which the engine fails\<close>

lemmas engine_simps = uint_minus_one_32 compute_dispmap_def row_loop.simps col_loop.simps dispmap_cell_def
  block_def slice_def Rect_org_sz_def Rect_pt1_pt2_def Let_def half_width_def
  word_less_alt word_sless_alt signed_divide_int_def
  Mat_roi_def roi_fits_def matchTemplate_def minMaxLoc_def selectBest_def Mat_set_def
  smin_def smax_def window_def ramp_grid_def

text \<open>Claim C7 fails on the code. For \<open>mindisp = 2\<close>, \<open>numdisp = 0\<close>, \<open>blocksize = 1\<close> and two
  grids of 3 rows and 4 columns, the coordinate \<open>(4, 0)\<close> is in the range of the engine's
  bounds, its block does not lie inside the left grid, and the engine fails with
  \<open>OutOfBounds\<close>, whatever the scores and the allocated content.\<close>

theorem block_outside_left_grid:
  fixes ncc :: "uchar list list \<Rightarrow> uchar list list \<Rightarrow> 'a::linorder"
  shows "eligible (ramp_grid 3 4) 0 2 1 4 0 \<and>
         \<not> roi_fits (ramp_grid 3 4) (block 1 (half_width 1) 0 4) \<and>
         compute_dispmap ncc (ramp_grid 3 4, ramp_grid 3 4) 0 2 1 alloc = Inl OutOfBounds"
proof -
  have "eligible (ramp_grid 3 4) 0 2 1 4 0" by code_simp
  moreover have "\<not> roi_fits (ramp_grid 3 4) (block 1 (half_width 1) 0 4)" by code_simp
  moreover have "compute_dispmap ncc (ramp_grid 3 4, ramp_grid 3 4) 0 2 1 alloc = Inl OutOfBounds"
    by (simp add: engine_simps)
  ultimately show ?thesis by blast
qed

text \<open>Claim C2 fails on the code. For two grids of 1 row and 4 columns with
  \<open>blocksize = 3\<close>, and for two grids of 10 rows and 200 columns with the default parameters
  (\<open>numdisp = 64\<close>, \<open>mindisp = 0\<close>, \<open>blocksize = 21\<close>), the eligible range is empty and the
  engine fails with \<open>OutOfBounds\<close>: \<open>limg.rows - w - 1\<close> wraps around, the outer loop is
  entered, and the first block does not lie inside the left grid.\<close>

theorem empty_range_raises_OutOfBounds:
  fixes ncc :: "uchar list list \<Rightarrow> uchar list list \<Rightarrow> 'a::linorder"
  shows "eligible_coords (ramp_grid 1 4) 0 0 3 = [] \<and>
         compute_dispmap ncc (ramp_grid 1 4, ramp_grid 1 4) 0 0 3 alloc = Inl OutOfBounds \<and>
         eligible_coords (ramp_grid 10 200) 64 0 21 = [] \<and>
         compute_dispmap ncc (ramp_grid 10 200, ramp_grid 10 200) 64 0 21 alloc = Inl OutOfBounds"
proof -
  have "eligible_coords (ramp_grid 1 4) 0 0 3 = []" by code_simp
  moreover have "compute_dispmap ncc (ramp_grid 1 4, ramp_grid 1 4) 0 0 3 alloc = Inl OutOfBounds"
    by (simp add: engine_simps)
  moreover have "eligible_coords (ramp_grid 10 200) 64 0 21 = []" by code_simp
  moreover have "compute_dispmap ncc (ramp_grid 10 200, ramp_grid 10 200) 64 0 21 alloc = Inl OutOfBounds"
    by (simp add: engine_simps)
  ultimately show ?thesis by blast
qed

end
